theory Spec2Isabelle
  imports Complex_Main
begin

section \<open>SchurSieve: the evaluator of \<^verbatim>\<open>src/schur_sieve.py\<close>\<close>

text \<open>
  The class \<^verbatim>\<open>SchurSieve\<close> keeps three attributes: the prime sequence, the basis of
  complete homogeneous symmetric functions and the degree of that basis. Its methods are
  embedded as functions on a record of these attributes. A method that raises returns
  \<open>Inl\<close> of the error, a method that assigns to an attribute returns the new record.

  Numbers: the source computes in \<^verbatim>\<open>numpy.float64\<close>. The embedding computes in
  \<^typ>\<open>real\<close>, that is, in exact arithmetic: every statement below about a numeric value
  is a statement about the value the source's formulas denote, and says nothing about
  rounding. Python's integers (degrees, partition entries, matrix indices) are \<^typ>\<open>int\<close>.
\<close>

subsection \<open>State and errors\<close>

record schur_sieve =
  primes :: "real list"
  h_basis :: "real list"
  degree :: int

text \<open>
  The exceptions of the source, by the place that raises them:
  \<^item> \<open>InvalidDegreeError\<close>: \<^verbatim>\<open>ValueError("Degree must be a positive integer.")\<close>
    in \<^verbatim>\<open>compute_basis\<close>;
  \<^item> \<open>BasisUninitializedError\<close>: the \<^verbatim>\<open>RuntimeError\<close> of \<^verbatim>\<open>evaluate_partition\<close>;
  \<^item> \<open>InsufficientBasisDegreeError d idx\<close>: the \<^verbatim>\<open>IndexError\<close> of
    \<^verbatim>\<open>_construct_jacobi_trudi\<close>, whose message carries the stored degree and the index;
  \<^item> \<open>SingularTopologyError\<close>: the \<^verbatim>\<open>ValueError\<close> of \<^verbatim>\<open>compare_topologies\<close>.
\<close>

datatype error =
    InvalidDegreeError
  | BasisUninitializedError
  | InsufficientBasisDegreeError int int
  | SingularTopologyError

text \<open>\<^verbatim>\<open>__init__\<close>, after the data has been loaded: an empty basis and degree 0.\<close>

definition init :: "real list \<Rightarrow> schur_sieve" where
  "init ps = \<lparr>primes = ps, h_basis = [], degree = 0\<rparr>"

subsection \<open>\<^verbatim>\<open>compute_basis\<close>\<close>

text \<open>\<^verbatim>\<open>betas = np.reciprocal(self._primes)\<close>\<close>

definition reciprocal :: "real list \<Rightarrow> real list" where
  "reciprocal ps = map (\<lambda>p. 1 / p) ps"

text \<open>
  \<^verbatim>\<open>p_sums = [np.sum(np.power(betas, k)) for k in range(1, max_degree + 1)]\<close>
\<close>

definition power_sums :: "real list \<Rightarrow> nat \<Rightarrow> real list" where
  "power_sums betas d = map (\<lambda>k. sum_list (map (\<lambda>b. b ^ k) betas)) [1..<d + 1]"

text \<open>
  \<^verbatim>\<open>term_sum = sum(p_sums[k-1] * h[n-k] for k in range(1, n+1))\<close>
\<close>

definition term_sum :: "real list \<Rightarrow> real list \<Rightarrow> nat \<Rightarrow> real" where
  "term_sum p_sums h n = sum_list (map (\<lambda>k. p_sums ! (k - 1) * h ! (n - k)) [1..<n + 1])"

text \<open>The body of the loop over \<open>n\<close>: \<^verbatim>\<open>h.append(term_sum / n)\<close>.\<close>

definition newton_step :: "real list \<Rightarrow> nat \<Rightarrow> real list \<Rightarrow> real list" where
  "newton_step p_sums n h = h @ [term_sum p_sums h n / real n]"

text \<open>
  \<^verbatim>\<open>h = [1.0]\<close>, then \<^verbatim>\<open>for n in range(1, max_degree + 1)\<close>.
\<close>

definition newton_basis :: "real list \<Rightarrow> nat \<Rightarrow> real list" where
  "newton_basis p_sums d = fold (newton_step p_sums) [1..<d + 1] [1]"

definition compute_basis :: "schur_sieve \<Rightarrow> int \<Rightarrow> error + schur_sieve" where
  "compute_basis s max_degree =
     (if max_degree \<le> 0 then Inl InvalidDegreeError
      else
        let betas = reciprocal (primes s);
            p_sums = power_sums betas (nat max_degree);
            h = newton_basis p_sums (nat max_degree)
        in Inr (s\<lparr>h_basis := h, degree := max_degree\<rparr>))"

subsection \<open>\<^verbatim>\<open>_construct_jacobi_trudi\<close>\<close>

text \<open>
  Python's \<^verbatim>\<open>[x] * n\<close>: the empty list when \<open>n\<close> is negative.
\<close>

definition py_repeat :: "'a \<Rightarrow> int \<Rightarrow> 'a list" where
  "py_repeat x n = replicate (nat n) x"

text \<open>
  \<^verbatim>\<open>if len(mu) != k: mu = mu + [0] * (k - len(mu))\<close>
\<close>

definition pad_mu :: "nat \<Rightarrow> int list \<Rightarrow> int list" where
  "pad_mu k mu =
     (if length mu \<noteq> k then mu @ py_repeat 0 (int k - int (length mu)) else mu)"

text \<open>\<^verbatim>\<open>idx = lam[i] - mu[j] - i + j\<close>\<close>

definition jt_index :: "int list \<Rightarrow> int list \<Rightarrow> nat \<Rightarrow> nat \<Rightarrow> int" where
  "jt_index lam mu i j = lam ! i - mu ! j - int i + int j"

text \<open>\<^verbatim>\<open>matrix[i, j] = v\<close> on a matrix kept as the list of its rows.\<close>

definition set_cell :: "real list list \<Rightarrow> nat \<Rightarrow> nat \<Rightarrow> real \<Rightarrow> real list list" where
  "set_cell m i j v = m[i := (m ! i)[j := v]]"

text \<open>
  The inner loop \<^verbatim>\<open>for j in range(k)\<close> on row \<open>i\<close>, over the columns still to visit;
  the \<^verbatim>\<open>raise\<close> leaves both loops.
\<close>

fun jt_row :: "schur_sieve \<Rightarrow> int list \<Rightarrow> int list \<Rightarrow> nat \<Rightarrow> nat list \<Rightarrow>
    real list list \<Rightarrow> error + real list list" where
  "jt_row s lam mu i [] m = Inr m"
| "jt_row s lam mu i (j # js) m =
     (let idx = jt_index lam mu i j in
      if idx < 0 then jt_row s lam mu i js (set_cell m i j 0)
      else if idx \<ge> int (length (h_basis s))
        then Inl (InsufficientBasisDegreeError (degree s) idx)
      else jt_row s lam mu i js (set_cell m i j (h_basis s ! nat idx)))"

text \<open>The outer loop \<^verbatim>\<open>for i in range(k)\<close>, over the rows still to visit.\<close>

fun jt_rows :: "schur_sieve \<Rightarrow> int list \<Rightarrow> int list \<Rightarrow> nat \<Rightarrow> nat list \<Rightarrow>
    real list list \<Rightarrow> error + real list list" where
  "jt_rows s lam mu k [] m = Inr m"
| "jt_rows s lam mu k (i # is) m =
     (case jt_row s lam mu i [0..<k] m of
        Inl e \<Rightarrow> Inl e
      | Inr m' \<Rightarrow> jt_rows s lam mu k is m')"

text \<open>\<^verbatim>\<open>np.zeros((k, k), dtype=np.float64)\<close>\<close>

definition zeros :: "nat \<Rightarrow> real list list" where
  "zeros k = replicate k (replicate k 0)"

definition construct_jacobi_trudi ::
    "schur_sieve \<Rightarrow> int list \<Rightarrow> int list \<Rightarrow> error + real list list" where
  "construct_jacobi_trudi s lam mu =
     (let k = length lam;
          mu' = pad_mu k mu
      in jt_rows s lam mu' k [0..<k] (zeros k))"

subsection \<open>\<^verbatim>\<open>evaluate_partition\<close> and \<^verbatim>\<open>compare_topologies\<close>\<close>

text \<open>
  Modelled from the spec: \<^verbatim>\<open>numpy.linalg.det\<close> is a library function, not part of the
  sources. The spec (4.4 and the empty-shape scenario) describes it as the determinant of
  the matrix, with the determinant of the 0 by 0 matrix defined as 1.0. The model is the
  determinant itself, by expansion along the first row; \<open>drop_col j\<close> deletes
  column \<open>j\<close> from a row.
\<close>

definition drop_col :: "nat \<Rightarrow> real list \<Rightarrow> real list" where
  "drop_col j r = take j r @ drop (Suc j) r"

function det :: "real list list \<Rightarrow> real" where
  "det [] = 1"
| "det (r # rs) =
     sum_list (map (\<lambda>j. (- 1) ^ j * r ! j * det (map (drop_col j) rs)) [0..<length r])"
  by pat_completeness auto
termination
  by (relation "measure length") auto

text \<open>
  \<^verbatim>\<open>evaluate_partition(lam, mu=None)\<close>: the default for \<open>mu\<close> is filled in first
  (\<^verbatim>\<open>if mu is None: mu = [0] * len(lam)\<close>), then the basis is tested, then the matrix is
  built.
\<close>

definition default_mu :: "int list \<Rightarrow> int list option \<Rightarrow> int list" where
  "default_mu lam mu_opt =
     (case mu_opt of None \<Rightarrow> py_repeat 0 (int (length lam)) | Some mu \<Rightarrow> mu)"

definition evaluate_partition ::
    "schur_sieve \<Rightarrow> int list \<Rightarrow> int list option \<Rightarrow> error + real" where
  "evaluate_partition s lam mu_opt =
     (let mu = default_mu lam mu_opt in
      if length (h_basis s) = 0 then Inl BasisUninitializedError
      else case construct_jacobi_trudi s lam mu of
        Inl e \<Rightarrow> Inl e
      | Inr matrix \<Rightarrow> Inr (det matrix))"

record comparison =
  capacity_denominator :: real
  capacity_numerator :: real
  chi_ratio :: real

text \<open>
  \<^verbatim>\<open>np.isclose(a, b)\<close> with its default tolerances:
  \<open>|a - b| \<le> atol + rtol * |b|\<close>, \<open>rtol = 1e-05\<close>, \<open>atol = 1e-08\<close>.
\<close>

definition isclose :: "real \<Rightarrow> real \<Rightarrow> bool" where
  "isclose a b \<longleftrightarrow> \<bar>a - b\<bar> \<le> 1 / 10 ^ 8 + (1 / 10 ^ 5) * \<bar>b\<bar>"

text \<open>
  A configuration is the tuple \<^verbatim>\<open>(lambda, mu)\<close> that \<^verbatim>\<open>evaluate_partition(*config)\<close>
  unpacks.
\<close>

type_synonym config = "int list \<times> int list"

definition compare_topologies ::
    "schur_sieve \<Rightarrow> config \<Rightarrow> config \<Rightarrow> error + comparison" where
  "compare_topologies s config_a config_b =
     (case evaluate_partition s (fst config_a) (Some (snd config_a)) of
        Inl e \<Rightarrow> Inl e
      | Inr s_a \<Rightarrow>
          (case evaluate_partition s (fst config_b) (Some (snd config_b)) of
             Inl e \<Rightarrow> Inl e
           | Inr s_b \<Rightarrow>
               if isclose s_a 0 then Inl SingularTopologyError
               else Inr \<lparr>capacity_denominator = s_a,
                         capacity_numerator = s_b,
                         chi_ratio = s_b / s_a\<rparr>))"

subsection \<open>The evaluator as an object\<close>

text \<open>
  A call of one of the three public methods, what it returns, and the object after the
  call. \<^verbatim>\<open>compute_basis\<close> assigns \<^verbatim>\<open>self._h_basis\<close> and \<^verbatim>\<open>self._degree\<close> in its last
  two statements, after everything that can raise. \<^verbatim>\<open>evaluate_partition\<close>,
  \<^verbatim>\<open>_construct_jacobi_trudi\<close> and \<^verbatim>\<open>compare_topologies\<close> contain no assignment to an
  attribute of \<^verbatim>\<open>self\<close> and update no argument in place (\<^verbatim>\<open>mu = mu + ...\<close> builds a new
  list).
\<close>

datatype call =
    ComputeBasis int
  | EvaluatePartition "int list" "int list option"
  | CompareTopologies config config

datatype reply =
    NoValue
  | Capacity real
  | Comparison comparison

fun call_method :: "schur_sieve \<Rightarrow> call \<Rightarrow> (error + reply) \<times> schur_sieve" where
  "call_method s (ComputeBasis max_degree) =
     (case compute_basis s max_degree of
        Inl e \<Rightarrow> (Inl e, s)
      | Inr s' \<Rightarrow> (Inr NoValue, s'))"
| "call_method s (EvaluatePartition lam mu) =
     (case evaluate_partition s lam mu of
        Inl e \<Rightarrow> (Inl e, s)
      | Inr v \<Rightarrow> (Inr (Capacity v), s))"
| "call_method s (CompareTopologies config_a config_b) =
     (case compare_topologies s config_a config_b of
        Inl e \<Rightarrow> (Inl e, s)
      | Inr r \<Rightarrow> (Inr (Comparison r), s))"

text \<open>The object after a sequence of calls, a caller catching every exception.\<close>

fun run :: "schur_sieve \<Rightarrow> call list \<Rightarrow> schur_sieve" where
  "run s [] = s"
| "run s (c # cs) = run (snd (call_method s c)) cs"

fun is_compute_basis :: "call \<Rightarrow> bool" where
  "is_compute_basis (ComputeBasis max_degree) = True"
| "is_compute_basis c = False"

text \<open>
  No call of \<^verbatim>\<open>compute_basis\<close> in a sequence of calls has returned: each one raised.
\<close>

fun no_basis_computed :: "schur_sieve \<Rightarrow> call list \<Rightarrow> bool" where
  "no_basis_computed s [] = True"
| "no_basis_computed s (c # cs) =
     ((if is_compute_basis c then isl (fst (call_method s c)) else True) \<and>
      no_basis_computed (snd (call_method s c)) cs)"

text \<open>
  The state BasisReady with basis degree \<open>D\<close>, as \<^verbatim>\<open>compute_basis(D)\<close> leaves the
  object: the degree stored, and a basis with the entries \<open>0..D\<close>. The entries themselves
  are left open.
\<close>

definition basis_ready :: "schur_sieve \<Rightarrow> int \<Rightarrow> bool" where
  "basis_ready s D \<longleftrightarrow> 0 < D \<and> degree s = D \<and> int (length (h_basis s)) = D + 1"

text \<open>
  What the loops store in a cell whose index passed the degree test: zero for a negative
  index, the basis entry otherwise.
\<close>

definition cell_value :: "schur_sieve \<Rightarrow> int \<Rightarrow> real" where
  "cell_value s idx = (if idx < 0 then 0 else h_basis s ! nat idx)"

text \<open>The evaluator of the spec's concrete scenario, after \<^verbatim>\<open>compute_basis(2)\<close>.\<close>

definition sieve_235 :: schur_sieve where
  "sieve_235 = \<lparr>primes = [2, 3, 5], h_basis = [1, 31 / 30, 661 / 900], degree = 2\<rparr>"

section \<open>Properties\<close>

subsection \<open>The Newton recurrence of \<^verbatim>\<open>compute_basis\<close>\<close>

lemma newton_basis_0: "newton_basis p 0 = [1]"
  by (simp add: newton_basis_def)

lemma newton_basis_Suc:
  "newton_basis p (Suc m) = newton_step p (Suc m) (newton_basis p m)"
  by (simp add: newton_basis_def)

lemma length_newton_basis: "length (newton_basis p m) = Suc m"
  by (induction m) (simp_all add: newton_basis_0 newton_basis_Suc newton_step_def)

text \<open>Later rounds of the loop only append: the entries already there stay.\<close>

lemma newton_basis_prefix:
  "n \<le> m \<Longrightarrow> newton_basis p (m + d) ! n = newton_basis p m ! n"
  by (induction d)
    (simp_all add: newton_basis_Suc newton_step_def nth_append length_newton_basis)

lemma newton_basis_stable:
  assumes "n \<le> m" and "m \<le> m'"
  shows "newton_basis p m' ! n = newton_basis p m ! n"
proof -
  from assms(2) have "m' = m + (m' - m)" by simp
  then show ?thesis
    using newton_basis_prefix [OF assms(1), of p "m' - m"] by simp
qed

lemma newton_basis_nth_0: "newton_basis p m ! 0 = 1"
  using newton_basis_stable [of 0 0 m p] by (simp add: newton_basis_0)

lemma term_sum_sum:
  "term_sum p h n = (\<Sum>k = 1..n. p ! (k - 1) * h ! (n - k))"
proof -
  have "set [1..<n + 1] = {1..n}" by auto
  then show ?thesis
    by (simp add: term_sum_def interv_sum_list_conv_sum_set_nat del: upt_Suc)
qed

lemma newton_basis_last:
  "newton_basis p (Suc m) ! Suc m = term_sum p (newton_basis p m) (Suc m) / real (Suc m)"
  by (simp add: newton_basis_Suc newton_step_def nth_append length_newton_basis)

lemma newton_basis_recurrence:
  assumes "0 < n" and "n \<le> d"
  shows "real n * newton_basis p d ! n =
    (\<Sum>k = 1..n. p ! (k - 1) * newton_basis p d ! (n - k))"
proof -
  from assms obtain m where n: "n = Suc m" by (cases n) auto
  have "newton_basis p d ! n = newton_basis p n ! n"
    using assms by (intro newton_basis_stable) simp_all
  also have "\<dots> = term_sum p (newton_basis p m) n / real n"
    unfolding n by (rule newton_basis_last)
  finally have "real n * newton_basis p d ! n = term_sum p (newton_basis p m) n"
    using assms by simp
  also have "\<dots> = (\<Sum>k = 1..n. p ! (k - 1) * newton_basis p m ! (n - k))"
    by (rule term_sum_sum)
  also have "\<dots> = (\<Sum>k = 1..n. p ! (k - 1) * newton_basis p d ! (n - k))"
  proof (rule sum.cong)
    fix k assume "k \<in> {1..n}"
    then have "n - k \<le> m" using n by auto
    moreover have "m \<le> d" using assms n by simp
    ultimately have "newton_basis p d ! (n - k) = newton_basis p m ! (n - k)"
      by (rule newton_basis_stable)
    then show "p ! (k - 1) * newton_basis p m ! (n - k) =
        p ! (k - 1) * newton_basis p d ! (n - k)"
      by simp
  qed simp
  finally show ?thesis .
qed

lemma power_sums_nth:
  assumes "0 < k" and "k \<le> d"
  shows "power_sums (reciprocal ps) d ! (k - 1) = (\<Sum>p\<leftarrow>ps. (1 / p) ^ k)"
proof -
  from assms have "[1..<d + 1] ! (k - 1) = k"
    using nth_upt [of 1 "k - 1" "d + 1"] by simp
  with assms show ?thesis
    by (simp add: power_sums_def reciprocal_def comp_def del: upt_Suc)
qed

text \<open>A call with a positive degree returns, and leaves the object BasisReady.\<close>

lemma compute_basis_returns:
  "0 < D \<Longrightarrow> \<exists>s'. compute_basis s D = Inr s'"
  by (simp add: compute_basis_def Let_def)

lemma compute_basis_ready:
  "compute_basis s D = Inr s' \<Longrightarrow> basis_ready s' D \<and> primes s' = primes s"
  by (auto simp: compute_basis_def basis_ready_def Let_def length_newton_basis
      split: if_splits)

lemma basis_ready_nonempty: "basis_ready s D \<Longrightarrow> h_basis s \<noteq> []"
  by (auto simp: basis_ready_def)

lemma compute_basis_235: "compute_basis (init [2, 3, 5]) 2 = Inr sieve_235"
  by (simp add: compute_basis_def init_def sieve_235_def reciprocal_def power_sums_def
      newton_basis_def newton_step_def term_sum_def upt_rec numeral_2_eq_2 Let_def)

lemma basis_ready_235: "basis_ready sieve_235 2"
  by (simp add: basis_ready_def sieve_235_def)

subsection \<open>The loops of \<^verbatim>\<open>_construct_jacobi_trudi\<close>\<close>

lemma length_set_cell: "length (set_cell m i j v) = length m"
  by (simp add: set_cell_def)

lemma length_row_set_cell: "length (set_cell m i j v ! r) = length (m ! r)"
proof (cases "r = i")
  case True
  then show ?thesis
    by (cases "i < length m") (simp_all add: set_cell_def list_update_beyond)
next
  case False
  then show ?thesis by (simp add: set_cell_def)
qed

lemma nth_set_cell:
  "r < length m \<Longrightarrow> c < length (m ! r) \<Longrightarrow>
   set_cell m i j v ! r ! c = (if r = i \<and> c = j then v else m ! r ! c)"
  by (cases "r = i") (simp_all add: set_cell_def nth_list_update)

text \<open>
  A row that is completed: the shape of the matrix is kept, every index visited was below
  the length of the basis, the cells visited hold their values and the others are
  untouched.
\<close>

lemma jt_row_Inr:
  "jt_row s lam mu i js m = Inr m' \<Longrightarrow>
   length m' = length m \<and> (\<forall>r. length (m' ! r) = length (m ! r)) \<and>
   (\<forall>j\<in>set js. jt_index lam mu i j < int (length (h_basis s))) \<and>
   (\<forall>r c. r < length m \<longrightarrow> c < length (m ! r) \<longrightarrow>
      m' ! r ! c =
        (if r = i \<and> c \<in> set js then cell_value s (jt_index lam mu i c) else m ! r ! c))"
proof (induction js arbitrary: m)
  case Nil
  then show ?case by simp
next
  case (Cons j js)
  let ?idx = "jt_index lam mu i j"
  let ?m1 = "set_cell m i j (cell_value s ?idx)"
  from Cons.prems have ok: "?idx < int (length (h_basis s))"
    by (auto simp: Let_def split: if_splits)
  from Cons.prems ok have rec: "jt_row s lam mu i js ?m1 = Inr m'"
    by (auto simp: Let_def cell_value_def split: if_splits)
  note ih = Cons.IH [OF rec]
  show ?case
  proof (intro conjI allI impI ballI)
    show "length m' = length m"
      using ih by (simp add: length_set_cell)
    show "length (m' ! r) = length (m ! r)" for r
      using ih by (simp add: length_row_set_cell)
    show "jt_index lam mu i j' < int (length (h_basis s))" if "j' \<in> set (j # js)" for j'
      using that ok ih by auto
    show "m' ! r ! c =
        (if r = i \<and> c \<in> set (j # js) then cell_value s (jt_index lam mu i c)
         else m ! r ! c)"
      if "r < length m" and "c < length (m ! r)" for r c
    proof -
      from that have "m' ! r ! c =
          (if r = i \<and> c \<in> set js then cell_value s (jt_index lam mu i c)
           else ?m1 ! r ! c)"
        using ih by (simp add: length_set_cell length_row_set_cell)
      then show ?thesis using that by (auto simp: nth_set_cell)
    qed
  qed
qed

text \<open>A row that raises: some index visited was not below the length of the basis.\<close>

lemma jt_row_Inl:
  "jt_row s lam mu i js m = Inl e \<Longrightarrow>
   \<exists>j\<in>set js. int (length (h_basis s)) \<le> jt_index lam mu i j \<and>
      e = InsufficientBasisDegreeError (degree s) (jt_index lam mu i j)"
  by (induction js arbitrary: m) (auto simp: Let_def split: if_splits)

lemma jt_rows_Inr:
  "jt_rows s lam mu k is m = Inr m' \<Longrightarrow>
   length m' = length m \<and> (\<forall>r. length (m' ! r) = length (m ! r)) \<and>
   (\<forall>i\<in>set is. \<forall>j<k. jt_index lam mu i j < int (length (h_basis s))) \<and>
   (\<forall>r c. r < length m \<longrightarrow> c < length (m ! r) \<longrightarrow>
      m' ! r ! c =
        (if r \<in> set is \<and> c < k then cell_value s (jt_index lam mu r c) else m ! r ! c))"
proof (induction "is" arbitrary: m)
  case Nil
  then show ?case by simp
next
  case (Cons i "is")
  from Cons.prems obtain m1 where row: "jt_row s lam mu i [0..<k] m = Inr m1"
    and rest: "jt_rows s lam mu k is m1 = Inr m'"
    by (auto split: sum.splits)
  note r1 = jt_row_Inr [OF row]
  note ih = Cons.IH [OF rest]
  show ?case
  proof (intro conjI allI impI ballI)
    show "length m' = length m"
      using ih r1 by simp
    show "length (m' ! r) = length (m ! r)" for r
      using ih r1 by simp
    show "jt_index lam mu i' j < int (length (h_basis s))"
      if "i' \<in> set (i # is)" and "j < k" for i' j
      using that r1 ih by auto
    show "m' ! r ! c =
        (if r \<in> set (i # is) \<and> c < k then cell_value s (jt_index lam mu r c)
         else m ! r ! c)"
      if "r < length m" and "c < length (m ! r)" for r c
    proof -
      from that r1 have "r < length m1" and "c < length (m1 ! r)" by simp_all
      then have "m' ! r ! c =
          (if r \<in> set is \<and> c < k then cell_value s (jt_index lam mu r c)
           else m1 ! r ! c)"
        using ih by simp
      moreover have "m1 ! r ! c =
          (if r = i \<and> c < k then cell_value s (jt_index lam mu i c) else m ! r ! c)"
        using r1 that by simp
      ultimately show ?thesis by auto
    qed
  qed
qed

lemma jt_rows_Inl:
  "jt_rows s lam mu k is m = Inl e \<Longrightarrow>
   \<exists>i\<in>set is. \<exists>j<k. int (length (h_basis s)) \<le> jt_index lam mu i j \<and>
      e = InsufficientBasisDegreeError (degree s) (jt_index lam mu i j)"
proof (induction "is" arbitrary: m)
  case Nil
  then show ?case by simp
next
  case (Cons i "is")
  show ?case
  proof (cases "jt_row s lam mu i [0..<k] m")
    case (Inl e')
    with Cons.prems have "e' = e" by simp
    with Inl jt_row_Inl [of s lam mu i "[0..<k]" m e] show ?thesis by auto
  next
    case (Inr m1)
    with Cons.prems have "jt_rows s lam mu k is m1 = Inl e" by simp
    from Cons.IH [OF this] show ?thesis by auto
  qed
qed

text \<open>The construction as a whole: what a matrix returned holds, and when it raises.\<close>

lemma construct_jacobi_trudi_Inr:
  assumes "construct_jacobi_trudi s lam mu = Inr M"
    and "i < length lam" and "j < length lam"
  shows "length M = length lam" and "length (M ! i) = length lam"
    and "jt_index lam (pad_mu (length lam) mu) i j < int (length (h_basis s))"
    and "M ! i ! j = cell_value s (jt_index lam (pad_mu (length lam) mu) i j)"
proof -
  let ?k = "length lam"
  from assms(1) have rows:
    "jt_rows s lam (pad_mu ?k mu) ?k [0..<?k] (zeros ?k) = Inr M"
    by (simp add: construct_jacobi_trudi_def Let_def)
  note r = jt_rows_Inr [OF rows]
  have z: "length (zeros ?k) = ?k" "length (zeros ?k ! i) = ?k"
    using assms(2) by (simp_all add: zeros_def)
  show "length M = ?k" using r z by simp
  show "length (M ! i) = ?k" using r z by simp
  show "jt_index lam (pad_mu ?k mu) i j < int (length (h_basis s))"
    using r assms(2,3) by simp
  show "M ! i ! j = cell_value s (jt_index lam (pad_mu ?k mu) i j)"
    using r z assms(2,3) by simp
qed

lemma construct_jacobi_trudi_Inl:
  assumes "construct_jacobi_trudi s lam mu = Inl e"
  shows "\<exists>i<length lam. \<exists>j<length lam.
    int (length (h_basis s)) \<le> jt_index lam (pad_mu (length lam) mu) i j \<and>
    e = InsufficientBasisDegreeError (degree s)
          (jt_index lam (pad_mu (length lam) mu) i j)"
proof -
  let ?k = "length lam"
  from assms have "jt_rows s lam (pad_mu ?k mu) ?k [0..<?k] (zeros ?k) = Inl e"
    by (simp add: construct_jacobi_trudi_def Let_def)
  from jt_rows_Inl [OF this] show ?thesis by auto
qed

text \<open>With every index within the basis the construction returns a matrix.\<close>

lemma construct_jacobi_trudi_returns:
  assumes "\<forall>i<length lam. \<forall>j<length lam.
    jt_index lam (pad_mu (length lam) mu) i j < int (length (h_basis s))"
  shows "\<exists>M. construct_jacobi_trudi s lam mu = Inr M"
proof (cases "construct_jacobi_trudi s lam mu")
  case (Inl e)
  from construct_jacobi_trudi_Inl [OF this] assms show ?thesis by force
next
  case (Inr M)
  then show ?thesis by simp
qed

text \<open>The loops read \<open>mu\<close> only through the indices of the cells.\<close>

lemma jt_row_cong:
  "\<forall>j\<in>set js. jt_index lam mu i j = jt_index lam mu' i j \<Longrightarrow>
   jt_row s lam mu i js m = jt_row s lam mu' i js m"
  by (induction js arbitrary: m) (simp_all add: Let_def)

lemma jt_rows_cong:
  "\<forall>i\<in>set is. \<forall>j<k. jt_index lam mu i j = jt_index lam mu' i j \<Longrightarrow>
   jt_rows s lam mu k is m = jt_rows s lam mu' k is m"
proof (induction "is" arbitrary: m)
  case Nil
  then show ?case by simp
next
  case (Cons i "is")
  have "jt_row s lam mu i [0..<k] m = jt_row s lam mu' i [0..<k] m"
    using Cons.prems by (intro jt_row_cong) simp
  with Cons show ?case by (simp split: sum.splits)
qed

lemma jt_index_take: "j < k \<Longrightarrow> jt_index lam (take k mu) i j = jt_index lam mu i j"
  by (simp add: jt_index_def)

subsection \<open>Calls that leave the object as it is\<close>

lemma call_method_keeps_state:
  "\<not> is_compute_basis c \<Longrightarrow> snd (call_method s c) = s"
  by (cases c) (auto split: sum.splits)

lemma run_keeps_state: "\<forall>c\<in>set cs. \<not> is_compute_basis c \<Longrightarrow> run s cs = s"
  by (induction cs arbitrary: s) (simp_all add: call_method_keeps_state)

lemma call_method_raise_keeps_state:
  "isl (fst (call_method s c)) \<Longrightarrow> snd (call_method s c) = s"
  by (cases c) (auto split: sum.splits)

text \<open>
  From \<^verbatim>\<open>__init__\<close> on, the basis stays empty as long as no call of
  \<^verbatim>\<open>compute_basis\<close> has returned, and a call that returns leaves it non-empty: the state
  Uninitialized is the state with the empty basis.
\<close>

lemma run_uninitialized:
  "h_basis s = [] \<Longrightarrow> no_basis_computed s cs \<Longrightarrow> h_basis (run s cs) = []"
proof (induction cs arbitrary: s)
  case Nil
  then show ?case by simp
next
  case (Cons c cs)
  have "snd (call_method s c) = s"
  proof (cases "is_compute_basis c")
    case True
    with Cons.prems(2) show ?thesis by (simp add: call_method_raise_keeps_state)
  next
    case False
    then show ?thesis by (rule call_method_keeps_state)
  qed
  with Cons show ?case by simp
qed

lemma init_uninitialized:
  "no_basis_computed (init ps) cs \<Longrightarrow> h_basis (run (init ps) cs) = []"
  by (rule run_uninitialized) (simp_all add: init_def)

section \<open>The claims\<close>

text \<open>
  C1. For every prime sequence with all entries non-zero and every positive \<open>D\<close>,
  \<^verbatim>\<open>compute_basis(D)\<close> returns and stores a basis with the entries \<open>0..D\<close> such that
  \<open>h_0 = 1\<close> and, for every \<open>n\<close> in \<open>1..D\<close>, \<open>n * h_n\<close> is the sum over \<open>k = 1..n\<close> of
  \<open>p_k * h_(n-k)\<close>, where \<open>p_k\<close> is the sum over the primes of \<open>(1 / prime) ^ k\<close>. In exact
  arithmetic the recurrence holds as an equation. The primes are taken non-zero: on a
  zero entry \<^verbatim>\<open>np.reciprocal\<close> gives infinity, where HOL's division gives 0, so the
  embedding says nothing about such a sequence.
\<close>

theorem compute_basis_newton:
  assumes "\<forall>p\<in>set (primes s). p \<noteq> 0" and "0 < D"
  shows "\<exists>s'. compute_basis s D = Inr s' \<and> primes s' = primes s \<and> degree s' = D \<and>
     int (length (h_basis s')) = D + 1 \<and> h_basis s' ! 0 = 1 \<and>
     (\<forall>n\<in>{1..nat D}. real n * h_basis s' ! n =
        (\<Sum>k = 1..n. (\<Sum>p\<leftarrow>primes s. (1 / p) ^ k) * h_basis s' ! (n - k)))"
proof -
  let ?p = "power_sums (reciprocal (primes s)) (nat D)"
  let ?h = "newton_basis ?p (nat D)"
  let ?s' = "s\<lparr>h_basis := ?h, degree := D\<rparr>"
  have eq: "compute_basis s D = Inr ?s'"
    using assms(2) by (simp add: compute_basis_def Let_def)
  have len: "int (length ?h) = D + 1"
    using assms(2) by (simp add: length_newton_basis)
  have h0: "?h ! 0 = 1" by (rule newton_basis_nth_0)
  have rec: "real n * ?h ! n =
      (\<Sum>k = 1..n. (\<Sum>p\<leftarrow>primes s. (1 / p) ^ k) * ?h ! (n - k))"
    if "n \<in> {1..nat D}" for n
  proof -
    from that have n: "0 < n" "n \<le> nat D" by auto
    have "real n * ?h ! n = (\<Sum>k = 1..n. ?p ! (k - 1) * ?h ! (n - k))"
      using n by (rule newton_basis_recurrence)
    also have "\<dots> = (\<Sum>k = 1..n. (\<Sum>p\<leftarrow>primes s. (1 / p) ^ k) * ?h ! (n - k))"
    proof (rule sum.cong)
      fix k assume "k \<in> {1..n}"
      with n have "0 < k" "k \<le> nat D" by auto
      then have "?p ! (k - 1) = (\<Sum>p\<leftarrow>primes s. (1 / p) ^ k)"
        by (rule power_sums_nth)
      then show "?p ! (k - 1) * ?h ! (n - k) =
          (\<Sum>p\<leftarrow>primes s. (1 / p) ^ k) * ?h ! (n - k)"
        by simp
    qed simp
    finally show ?thesis .
  qed
  show ?thesis
  proof (intro exI conjI ballI)
    show "compute_basis s D = Inr ?s'" by (rule eq)
    show "int (length (h_basis ?s')) = D + 1" using len by simp
    show "h_basis ?s' ! 0 = 1" using h0 by simp
    show "real n * h_basis ?s' ! n =
        (\<Sum>k = 1..n. (\<Sum>p\<leftarrow>primes s. (1 / p) ^ k) * h_basis ?s' ! (n - k))"
      if "n \<in> {1..nat D}" for n
      using rec [OF that] by simp
  qed simp_all
qed

theorem compute_basis_newton_witness:
  "compute_basis (init [2, 3, 5]) 2 = Inr sieve_235 \<and>
   h_basis sieve_235 ! 0 = 1 \<and>
   2 * h_basis sieve_235 ! 2 =
     (\<Sum>k = 1..2. (\<Sum>p\<leftarrow>[2, 3, 5]. (1 / p) ^ k) * h_basis sieve_235 ! (2 - k))"
proof -
  have nz: "\<forall>p\<in>set (primes (init [2, 3, 5])). p \<noteq> 0"
    by (simp add: init_def)
  from compute_basis_newton [OF nz, of 2]
  obtain s' where s': "compute_basis (init [2, 3, 5]) 2 = Inr s'"
    and h0: "h_basis s' ! 0 = 1"
    and rec: "\<forall>n\<in>{1..nat 2}. real n * h_basis s' ! n =
        (\<Sum>k = 1..n. (\<Sum>p\<leftarrow>primes (init [2, 3, 5]). (1 / p) ^ k) * h_basis s' ! (n - k))"
    by auto
  from s' have eq: "s' = sieve_235" by (simp add: compute_basis_235)
  have "(2::nat) \<in> {1..nat 2}" by simp
  with rec have "real 2 * h_basis s' ! 2 =
      (\<Sum>k = 1..2. (\<Sum>p\<leftarrow>primes (init [2, 3, 5]). (1 / p) ^ k) * h_basis s' ! (2 - k))"
    by blast
  then have "2 * h_basis sieve_235 ! 2 =
      (\<Sum>k = 1..2. (\<Sum>p\<leftarrow>[2, 3, 5]. (1 / p) ^ k) * h_basis sieve_235 ! (2 - k))"
    unfolding eq by (simp add: init_def)
  with s' h0 show ?thesis unfolding eq by simp
qed

text \<open>
  C2. When both configurations evaluate, to the reference capacity \<open>s_a\<close> and the target
  capacity \<open>s_b\<close>, \<^verbatim>\<open>compare_topologies\<close> raises the singular-topology error if \<open>s_a\<close> is
  within \<open>1e-08\<close> of zero, the tolerance of \<^verbatim>\<open>np.isclose\<close>, and returns nothing then;
  otherwise it returns the record of \<open>s_a\<close>, \<open>s_b\<close> and \<open>s_b / s_a\<close>.
\<close>

theorem compare_topologies_result:
  assumes "evaluate_partition s (fst config_a) (Some (snd config_a)) = Inr s_a"
    and "evaluate_partition s (fst config_b) (Some (snd config_b)) = Inr s_b"
  shows "compare_topologies s config_a config_b =
     (if \<bar>s_a\<bar> \<le> 1 / 10 ^ 8 then Inl SingularTopologyError
      else Inr \<lparr>capacity_denominator = s_a, capacity_numerator = s_b,
                chi_ratio = s_b / s_a\<rparr>)"
  using assms by (simp add: compare_topologies_def isclose_def)

theorem compare_topologies_result_witness:
  "compare_topologies sieve_235 ([1, 1], [0, 0]) ([1], [0]) =
     Inr \<lparr>capacity_denominator = 1 / 3, capacity_numerator = 31 / 30,
          chi_ratio = 31 / 10\<rparr> \<and>
   compare_topologies sieve_235 ([0, 1], [0, 0]) ([1], [0]) = Inl SingularTopologyError"
proof -
  have a: "evaluate_partition sieve_235 (fst ([1, 1], [0, 0])) (Some (snd ([1, 1], [0, 0])))
      = Inr (1 / 3)"
    by code_simp
  have a0: "evaluate_partition sieve_235 (fst ([0, 1], [0, 0])) (Some (snd ([0, 1], [0, 0])))
      = Inr 0"
    by code_simp
  have b: "evaluate_partition sieve_235 (fst ([1], [0])) (Some (snd ([1], [0])))
      = Inr (31 / 30)"
    by code_simp
  show ?thesis
    using compare_topologies_result [OF a b] compare_topologies_result [OF a0 b]
    by simp
qed

text \<open>
  C3. In the state BasisReady with degree \<open>D\<close>, if some cell \<open>(i, j)\<close> of the construction
  has an index above \<open>D\<close>, the construction raises the insufficient-degree error, and so
  does \<^verbatim>\<open>evaluate_partition\<close>, with \<open>mu\<close> given or left out: no matrix is returned, so
  no entry is truncated or zeroed. The error reports the degree \<open>D\<close> and an index above it.
\<close>

theorem degree_guard:
  assumes "basis_ready s D" and "i < length lam" and "j < length lam"
    and "D < jt_index lam (pad_mu (length lam) (default_mu lam mu_opt)) i j"
  shows "\<exists>idx. D < idx \<and>
     construct_jacobi_trudi s lam (default_mu lam mu_opt) =
       Inl (InsufficientBasisDegreeError D idx) \<and>
     evaluate_partition s lam mu_opt = Inl (InsufficientBasisDegreeError D idx)"
proof -
  let ?mu = "default_mu lam mu_opt"
  from assms(1) have len: "int (length (h_basis s)) = D + 1" and deg: "degree s = D"
    by (simp_all add: basis_ready_def)
  have ne: "length (h_basis s) \<noteq> 0"
    using basis_ready_nonempty [OF assms(1)] by simp
  show ?thesis
  proof (cases "construct_jacobi_trudi s lam ?mu")
    case (Inl e)
    from construct_jacobi_trudi_Inl [OF this] obtain i' j'
      where "int (length (h_basis s)) \<le> jt_index lam (pad_mu (length lam) ?mu) i' j'"
        and "e = InsufficientBasisDegreeError (degree s)
          (jt_index lam (pad_mu (length lam) ?mu) i' j')"
      by blast
    with len deg Inl ne show ?thesis
      by (intro exI [of _ "jt_index lam (pad_mu (length lam) ?mu) i' j'"])
        (simp add: evaluate_partition_def)
  next
    case (Inr M)
    from construct_jacobi_trudi_Inr(3) [OF this assms(2,3)] len assms(4)
    show ?thesis by simp
  qed
qed

theorem degree_guard_witness:
  "basis_ready sieve_235 2 \<and>
   jt_index [3] (pad_mu (length [3::int]) (default_mu [3] None)) 0 0 = 3 \<and>
   (\<exists>idx. 2 < idx \<and>
     construct_jacobi_trudi sieve_235 [3] (default_mu [3] None) =
       Inl (InsufficientBasisDegreeError 2 idx) \<and>
     evaluate_partition sieve_235 [3] None = Inl (InsufficientBasisDegreeError 2 idx))"
proof -
  have idx: "jt_index [3] (pad_mu (length [3::int]) (default_mu [3] None)) 0 0 = 3"
    by (simp add: jt_index_def pad_mu_def default_mu_def py_repeat_def)
  have "(0::nat) < length [3::int]" by simp
  from degree_guard [OF basis_ready_235 this this, of None] idx basis_ready_235
  show ?thesis by simp
qed

text \<open>
  C4. In the state BasisReady with degree \<open>D\<close>, whatever the entries of the basis, and
  with the indices computed from \<open>mu\<close> zero-padded to the length \<open>k\<close> of \<open>lam\<close>: if every
  cell index is at most \<open>D\<close>, the construction returns a matrix; and a matrix that it
  returns is \<open>k\<close> by \<open>k\<close>, its cell \<open>(i, j)\<close> is 0 if the index of the cell is negative
  and the basis entry at the index if the index lies in \<open>0..D\<close>, and no index is above
  \<open>D\<close>.
\<close>

theorem jacobi_trudi_cells:
  assumes "basis_ready s D"
  shows "((\<forall>i<length lam. \<forall>j<length lam.
        jt_index lam (pad_mu (length lam) mu) i j \<le> D) \<longrightarrow>
      (\<exists>M. construct_jacobi_trudi s lam mu = Inr M)) \<and>
     (\<forall>M. construct_jacobi_trudi s lam mu = Inr M \<longrightarrow>
        length M = length lam \<and>
        (\<forall>i<length lam. \<forall>j<length lam.
           length (M ! i) = length lam \<and>
           jt_index lam (pad_mu (length lam) mu) i j \<le> D \<and>
           (jt_index lam (pad_mu (length lam) mu) i j < 0 \<longrightarrow> M ! i ! j = 0) \<and>
           (0 \<le> jt_index lam (pad_mu (length lam) mu) i j \<and>
            jt_index lam (pad_mu (length lam) mu) i j \<le> D \<longrightarrow>
              M ! i ! j = h_basis s ! nat (jt_index lam (pad_mu (length lam) mu) i j))))"
proof -
  let ?idx = "jt_index lam (pad_mu (length lam) mu)"
  from assms have len: "int (length (h_basis s)) = D + 1"
    by (simp add: basis_ready_def)
  have returns: "\<exists>M. construct_jacobi_trudi s lam mu = Inr M"
    if "\<forall>i<length lam. \<forall>j<length lam. ?idx i j \<le> D"
  proof (rule construct_jacobi_trudi_returns)
    from that len
    show "\<forall>i<length lam. \<forall>j<length lam. ?idx i j < int (length (h_basis s))"
      by simp
  qed
  have shape: "length M = length lam"
    if M: "construct_jacobi_trudi s lam mu = Inr M" for M
  proof -
    from M have "jt_rows s lam (pad_mu (length lam) mu) (length lam) [0..<length lam]
        (zeros (length lam)) = Inr M"
      by (simp add: construct_jacobi_trudi_def Let_def)
    from jt_rows_Inr [OF this] show ?thesis by (simp add: zeros_def)
  qed
  have cells: "length (M ! i) = length lam \<and> ?idx i j \<le> D \<and>
      (?idx i j < 0 \<longrightarrow> M ! i ! j = 0) \<and>
      (0 \<le> ?idx i j \<and> ?idx i j \<le> D \<longrightarrow> M ! i ! j = h_basis s ! nat (?idx i j))"
    if M: "construct_jacobi_trudi s lam mu = Inr M"
      and i: "i < length lam" and j: "j < length lam" for M i j
  proof -
    note c = construct_jacobi_trudi_Inr [OF M i j]
    from c(3) len have "?idx i j \<le> D" by simp
    with c(2,4) show ?thesis by (simp add: cell_value_def)
  qed
  from returns shape cells show ?thesis by blast
qed

theorem jacobi_trudi_cells_witness:
  "basis_ready sieve_235 2 \<and>
   (\<exists>M. construct_jacobi_trudi sieve_235 [1, 1] [1] = Inr M \<and> length M = 2 \<and>
      M ! 1 ! 0 = 0 \<and> M ! 0 ! 1 = h_basis sieve_235 ! 2) \<and>
   construct_jacobi_trudi sieve_235 [1, 1] [1] = Inr [[1, 661 / 900], [0, 31 / 30]] \<and>
   jt_index [1, 1] (pad_mu 2 [1]) 1 0 = - 1 \<and>
   jt_index [1, 1] (pad_mu 2 [1]) 0 1 = 2"
proof -
  let ?idx = "jt_index [1, 1] (pad_mu 2 [1])"
  have idx: "?idx 0 0 = 0" "?idx 0 1 = 2" "?idx 1 0 = - 1" "?idx 1 1 = 1"
    by (simp_all add: jt_index_def pad_mu_def py_repeat_def)
  have k: "length [1, 1 :: int] = 2" by simp
  have all: "\<forall>i<2. \<forall>j<2. ?idx i j \<le> 2"
  proof (intro allI impI)
    fix i j :: nat assume "i < 2" and "j < 2"
    then have "(i = 0 \<or> i = 1) \<and> (j = 0 \<or> j = 1)" by auto
    with idx show "?idx i j \<le> 2" by auto
  qed
  note t = jacobi_trudi_cells [OF basis_ready_235, of "[1, 1]" "[1]", unfolded k]
  from t all obtain M where M: "construct_jacobi_trudi sieve_235 [1, 1] [1] = Inr M"
    by blast
  from t M have len: "length M = 2" by blast
  have l: "(1::nat) < 2" "(0::nat) < 2" by simp_all
  from t M l have "?idx 1 0 < 0 \<longrightarrow> M ! 1 ! 0 = 0" by blast
  with idx(3) have c10: "M ! 1 ! 0 = 0" by simp
  from t M l have "0 \<le> ?idx 0 1 \<and> ?idx 0 1 \<le> 2 \<longrightarrow>
      M ! 0 ! 1 = h_basis sieve_235 ! nat (?idx 0 1)"
    by blast
  with idx(2) have c01: "M ! 0 ! 1 = h_basis sieve_235 ! 2" by simp
  have m: "construct_jacobi_trudi sieve_235 [1, 1] [1] =
      Inr [[1, 661 / 900], [0, 31 / 30]]"
    by code_simp
  from M len c10 c01 have
    "\<exists>M. construct_jacobi_trudi sieve_235 [1, 1] [1] = Inr M \<and> length M = 2 \<and>
      M ! 1 ! 0 = 0 \<and> M ! 0 ! 1 = h_basis sieve_235 ! 2"
    by blast
  with basis_ready_235 m idx(2,3) show ?thesis by blast
qed

text \<open>
  C5 (second value amended). With the prime sequence \<open>[2, 3, 5]\<close> and after
  \<^verbatim>\<open>compute_basis(2)\<close>, \<^verbatim>\<open>evaluate_partition([1], [0])\<close> returns \<open>h_1 = p_1 = 31/30\<close>,
  which is 1.033333 to six decimals, and \<^verbatim>\<open>evaluate_partition([2], [0])\<close> returns
  \<open>h_2 = (p_1 * h_1 + p_2 * h_0) / 2 = 661/900\<close>, which is 0.734444 to six decimals.
  The value 0.734479 is not the value of \<open>h_2\<close>: the two differ by more than \<open>3e-05\<close>,
  as the second theorem shows.
\<close>

theorem concrete_scenario_235:
  "compute_basis (init [2, 3, 5]) 2 = Inr sieve_235 \<and>
   evaluate_partition sieve_235 [1] (Some [0]) = Inr (31 / 30) \<and>
   \<bar>31 / 30 - 1.033333\<bar> \<le> (1 / 10 ^ 6 :: real) \<and>
   evaluate_partition sieve_235 [2] (Some [0]) = Inr (661 / 900) \<and>
   \<bar>661 / 900 - 0.734444\<bar> \<le> (1 / 10 ^ 6 :: real)"
proof -
  have "evaluate_partition sieve_235 [1] (Some [0]) = Inr (31 / 30)"
    by code_simp
  moreover have "evaluate_partition sieve_235 [2] (Some [0]) = Inr (661 / 900)"
    by code_simp
  moreover have "\<bar>31 / 30 - 1.033333\<bar> \<le> (1 / 10 ^ 6 :: real)"
    and "\<bar>661 / 900 - 0.734444\<bar> \<le> (1 / 10 ^ 6 :: real)"
    by simp_all
  ultimately show ?thesis
    using compute_basis_235 by simp
qed

theorem concrete_scenario_235_counterexample:
  "compute_basis (init [2, 3, 5]) 2 = Inr sieve_235 \<and>
   evaluate_partition sieve_235 [2] (Some [0]) = Inr (661 / 900) \<and>
   (3 / 10 ^ 5 :: real) < \<bar>661 / 900 - 0.734479\<bar>"
proof -
  have "evaluate_partition sieve_235 [2] (Some [0]) = Inr (661 / 900)"
    by code_simp
  moreover have "(3 / 10 ^ 5 :: real) < \<bar>661 / 900 - 0.734479\<bar>"
    by simp
  ultimately show ?thesis
    using compute_basis_235 by simp
qed

text \<open>
  C6. In the state Uninitialized, the basis being empty, \<^verbatim>\<open>evaluate_partition\<close> raises
  the basis-uninitialized error for every \<open>lam\<close> and every \<open>mu\<close>, given or left out, and
  \<^verbatim>\<open>compare_topologies\<close> raises it for every pair of configurations, from its first
  evaluation. By \<open>init_uninitialized\<close> this is the state from \<^verbatim>\<open>__init__\<close> until a call of
  \<^verbatim>\<open>compute_basis\<close> returns.
\<close>

theorem uninitialized_evaluation_fails:
  assumes "h_basis s = []"
  shows "evaluate_partition s lam mu_opt = Inl BasisUninitializedError \<and>
     compare_topologies s config_a config_b = Inl BasisUninitializedError"
  using assms by (simp add: evaluate_partition_def compare_topologies_def Let_def)

theorem uninitialized_evaluation_fails_witness:
  "h_basis (run (init [2, 3, 5]) [ComputeBasis 0, EvaluatePartition [1] None]) = [] \<and>
   evaluate_partition (run (init [2, 3, 5]) [ComputeBasis 0, EvaluatePartition [1] None])
     [4, 4, 1] (Some [2, 1, 0]) = Inl BasisUninitializedError \<and>
   compare_topologies (run (init [2, 3, 5]) [ComputeBasis 0, EvaluatePartition [1] None])
     ([4, 4, 1], [2, 1, 0]) ([8, 8, 1], [2, 1, 0]) = Inl BasisUninitializedError"
proof -
  let ?s = "run (init [2, 3, 5]) [ComputeBasis 0, EvaluatePartition [1] None]"
  have "no_basis_computed (init [2, 3, 5]) [ComputeBasis 0, EvaluatePartition [1] None]"
    by (simp add: compute_basis_def)
  then have e: "h_basis ?s = []" by (rule init_uninitialized)
  from uninitialized_evaluation_fails [OF e] e show ?thesis by simp
qed

text \<open>
  C7. For every \<open>max_degree \<le> 0\<close>, in every state and for every prime sequence,
  \<^verbatim>\<open>compute_basis\<close> raises the invalid-degree error, and the object is left as it was.
\<close>

theorem compute_basis_invalid_degree:
  assumes "max_degree \<le> 0"
  shows "compute_basis s max_degree = Inl InvalidDegreeError \<and>
     call_method s (ComputeBasis max_degree) = (Inl InvalidDegreeError, s)"
  using assms by (simp add: compute_basis_def)

theorem compute_basis_invalid_degree_witness:
  "compute_basis sieve_235 (- 3) = Inl InvalidDegreeError \<and>
   call_method sieve_235 (ComputeBasis (- 3)) = (Inl InvalidDegreeError, sieve_235) \<and>
   compute_basis (init [2, 3, 5]) 0 = Inl InvalidDegreeError"
  using compute_basis_invalid_degree [of "- 3" sieve_235]
    compute_basis_invalid_degree [of 0 "init [2, 3, 5]"]
  by simp

text \<open>
  C8. In the state BasisReady, the basis being non-empty, \<open>lam = []\<close> and \<open>mu = []\<close> give
  the matrix with no rows, and \<^verbatim>\<open>evaluate_partition\<close> returns its determinant 1, also
  when \<open>mu\<close> is left out.
\<close>

theorem empty_shape:
  assumes "h_basis s \<noteq> []"
  shows "construct_jacobi_trudi s [] [] = Inr [] \<and>
     evaluate_partition s [] (Some []) = Inr 1 \<and>
     evaluate_partition s [] None = Inr 1"
  using assms
  by (simp add: evaluate_partition_def construct_jacobi_trudi_def pad_mu_def zeros_def
      default_mu_def py_repeat_def)

theorem empty_shape_witness:
  "h_basis sieve_235 \<noteq> [] \<and>
   construct_jacobi_trudi sieve_235 [] [] = Inr [] \<and>
   evaluate_partition sieve_235 [] (Some []) = Inr 1 \<and>
   evaluate_partition sieve_235 [] None = Inr 1"
proof -
  have ne: "h_basis sieve_235 \<noteq> []" by (simp add: sieve_235_def)
  from empty_shape [OF ne] ne show ?thesis by simp
qed

text \<open>
  C9. In every state, a call of \<^verbatim>\<open>evaluate_partition\<close> leaves the object as it was
  (prime sequence, basis and degree), and a second call with the same arguments, after
  any calls other than \<^verbatim>\<open>compute_basis\<close>, returns or raises what the first did and
  again leaves the object as it was.
\<close>

theorem evaluate_partition_idempotent:
  assumes "\<forall>c\<in>set cs. \<not> is_compute_basis c"
    and "call_method s (EvaluatePartition lam mu_opt) = (r1, s1)"
    and "call_method (run s1 cs) (EvaluatePartition lam mu_opt) = (r2, s2)"
  shows "r2 = r1 \<and> s1 = s \<and> s2 = s"
proof -
  have k: "snd (call_method s (EvaluatePartition lam mu_opt)) = s"
    by (rule call_method_keeps_state) simp
  with assms(2) have s1: "s1 = s" by simp
  from assms(1) have "run s1 cs = s" unfolding s1 by (rule run_keeps_state)
  with assms(2,3) k show ?thesis by simp
qed

theorem evaluate_partition_idempotent_witness:
  "call_method sieve_235 (EvaluatePartition [2] None) =
     (Inr (Capacity (661 / 900)), sieve_235) \<and>
   call_method
     (run sieve_235 [CompareTopologies ([1], [0]) ([2], [0]), EvaluatePartition [3] None])
     (EvaluatePartition [2] None) = (Inr (Capacity (661 / 900)), sieve_235)"
proof -
  let ?cs = "[CompareTopologies ([1], [0]) ([2], [0]), EvaluatePartition [3] None]"
  have cs: "\<forall>c\<in>set ?cs. \<not> is_compute_basis c" by simp
  have e: "evaluate_partition sieve_235 [2] None = Inr (661 / 900)" by code_simp
  then have c1: "call_method sieve_235 (EvaluatePartition [2] None) =
      (Inr (Capacity (661 / 900)), sieve_235)"
    by simp
  obtain r2 s2 where c2:
    "call_method (run sieve_235 ?cs) (EvaluatePartition [2] None) = (r2, s2)"
    by (cases "call_method (run sieve_235 ?cs) (EvaluatePartition [2] None)")
  from evaluate_partition_idempotent [OF cs c1 c2] c1 c2 show ?thesis by simp
qed

text \<open>
  C10. When \<open>mu\<close> is longer than \<open>lam\<close>, of length \<open>k\<close>, the padding leaves \<open>mu\<close> as it
  is, the loops read its first \<open>k\<close> entries only, and \<^verbatim>\<open>evaluate_partition\<close> returns or
  raises exactly what it does for \<open>mu\<close> cut to its first \<open>k\<close> entries, so the extra
  entries cause no error of their own. This holds in every state.
\<close>

theorem longer_mu_truncated:
  assumes "length lam < length mu"
  shows "pad_mu (length lam) mu = mu \<and>
     construct_jacobi_trudi s lam mu =
       construct_jacobi_trudi s lam (take (length lam) mu) \<and>
     evaluate_partition s lam (Some mu) =
       evaluate_partition s lam (Some (take (length lam) mu))"
proof -
  let ?k = "length lam"
  have p1: "pad_mu ?k mu = mu"
    using assms by (simp add: pad_mu_def py_repeat_def)
  have p2: "pad_mu ?k (take ?k mu) = take ?k mu"
    using assms by (simp add: pad_mu_def)
  have "jt_rows s lam mu ?k [0..<?k] (zeros ?k) =
      jt_rows s lam (take ?k mu) ?k [0..<?k] (zeros ?k)"
    by (intro jt_rows_cong) (simp add: jt_index_take)
  then have c: "construct_jacobi_trudi s lam mu =
      construct_jacobi_trudi s lam (take ?k mu)"
    by (simp add: construct_jacobi_trudi_def p1 p2)
  show ?thesis
    using p1 c by (simp add: evaluate_partition_def default_mu_def)
qed

theorem longer_mu_truncated_witness:
  "length [1, 1 :: int] < length [0, 0, 7 :: int] \<and>
   evaluate_partition sieve_235 [1, 1] (Some [0, 0, 7]) = Inr (1 / 3) \<and>
   evaluate_partition sieve_235 [1, 1] (Some (take (length [1, 1 :: int]) [0, 0, 7]))
     = Inr (1 / 3)"
proof -
  have l: "length [1, 1 :: int] < length [0, 0, 7 :: int]" by simp
  have "evaluate_partition sieve_235 [1, 1] (Some [0, 0, 7]) = Inr (1 / 3)"
    by code_simp
  with longer_mu_truncated [OF l, of sieve_235] l show ?thesis by simp
qed

end
